theory Spec2Isabelle
  imports Main
begin

section \<open>Data model\<close>

text \<open>
  A task is the dictionary \<^verbatim>\<open>{"desc": ..., "done": ...}\<close> of \<^verbatim>\<open>todolist.py\<close>.
  A description is a Python \<^verbatim>\<open>str\<close> over the code points below 256, one
  \<^typ>\<open>char\<close> for each code point.
\<close>

record task =
  desc :: string
  "done" :: bool

text \<open>
  What the program prints, one constructor for each \<^verbatim>\<open>print\<close> of the command engine,
  holding the values its f-string interpolates:
  \<^item> \<open>NoTasksYet\<close>: \<^verbatim>\<open>print("No tasks yet. Use `add` to create one.")\<close>
  \<^item> \<open>TaskLine i status d\<close>: \<^verbatim>\<open>print(f"{i}. [{status}] {task['desc']}")\<close>
  \<^item> \<open>Added d\<close>: \<^verbatim>\<open>print(f"Added: {desc!r}")\<close>
  \<^item> \<open>Completed idx\<close>: \<^verbatim>\<open>print(f"Completed task #{idx}")\<close>
  \<^item> \<open>Removed d\<close>: \<^verbatim>\<open>print(f"Removed: {removed['desc']!r}")\<close>
  \<^item> \<open>NoTaskWithID idx\<close>: \<^verbatim>\<open>print(f"No task with ID #{idx}")\<close>
\<close>

datatype message =
    NoTasksYet
  | TaskLine nat string string
  | Added string
  | Completed int
  | Removed string
  | NoTaskWithID int

datatype error = JSONDecodeError

text \<open>
  The state the functions act on: the list object \<^verbatim>\<open>tasks\<close> that every function
  receives and mutates in place, the content of the file \<^verbatim>\<open>TODO_FILE\<close>
  (\<open>None\<close> while \<^verbatim>\<open>os.path.exists(TODO_FILE)\<close> is false), and the lines printed so far.
\<close>

record state =
  tasks :: "task list"
  todo_file :: "string option"
  stdout :: "message list"

definition print :: "message \<Rightarrow> state \<Rightarrow> state" where
  "print m s = s\<lparr>stdout := stdout s @ [m]\<rparr>"

section \<open>Python lists\<close>

text \<open>
  \<^verbatim>\<open>xs[k]\<close> and \<^verbatim>\<open>xs.pop(k)\<close> on a list of length \<open>n\<close>: a negative \<open>k\<close> counts
  from the end, and a position outside the list raises \<^verbatim>\<open>IndexError\<close> (\<open>None\<close>).
\<close>

definition py_index :: "nat \<Rightarrow> int \<Rightarrow> nat option" where
  "py_index n k =
     (let j = (if k < 0 then k + int n else k)
      in if 0 \<le> j \<and> j < int n then Some (nat j) else None)"

section \<open>Store: the JSON text of a task list\<close>

text \<open>
  \<^verbatim>\<open>json.dump(tasks, f, indent=2)\<close> on a list of task dictionaries. Strings are
  written with \<^verbatim>\<open>ensure_ascii\<close>: the quote, the backslash and the control characters
  that have a short escape get it, every other character outside \<^verbatim>\<open>' '..'~'\<close>
  becomes \<^verbatim>\<open>\u00XX\<close> in lower-case hexadecimal.
\<close>

definition hex_digit :: "nat \<Rightarrow> char" where
  "hex_digit n = (if n < 10 then char_of (48 + n) else char_of (87 + n))"

definition escape_char :: "char \<Rightarrow> string" where
  "escape_char c =
     (if c = CHR 0x22 then [CHR 0x5C, CHR 0x22]
      else if c = CHR 0x5C then [CHR 0x5C, CHR 0x5C]
      else if c = CHR 0x0A then [CHR 0x5C, CHR ''n'']
      else if c = CHR 0x0D then [CHR 0x5C, CHR ''r'']
      else if c = CHR 0x09 then [CHR 0x5C, CHR ''t'']
      else if c = CHR 0x0C then [CHR 0x5C, CHR ''f'']
      else if c = CHR 0x08 then [CHR 0x5C, CHR ''b'']
      else if 0x20 \<le> (of_char c :: nat) \<and> (of_char c :: nat) \<le> 0x7E then [c]
      else [CHR 0x5C, CHR ''u'', CHR ''0'', CHR ''0'',
            hex_digit (of_char c div 16), hex_digit (of_char c mod 16)])"

definition encode_string :: "string \<Rightarrow> string" where
  "encode_string s = CHR 0x22 # concat (map escape_char s) @ [CHR 0x22]"

definition encode_task :: "task \<Rightarrow> string" where
  "encode_task t =
     ''{'' @ [CHR 0x0A] @
     ''    '' @ encode_string ''desc'' @ '': '' @ encode_string (desc t) @ '','' @ [CHR 0x0A] @
     ''    '' @ encode_string ''done'' @ '': '' @ (if done t then ''true'' else ''false'') @
     [CHR 0x0A] @ ''  }''"

fun encode_items :: "task list \<Rightarrow> string" where
  "encode_items [] = []"
| "encode_items [t] = encode_task t"
| "encode_items (t # ts) = encode_task t @ '','' @ [CHR 0x0A] @ ''  '' @ encode_items ts"

definition json_dumps :: "task list \<Rightarrow> string" where
  "json_dumps ts =
     (if ts = [] then ''[]''
      else ''['' @ [CHR 0x0A] @ ''  '' @ encode_items ts @ [CHR 0x0A] @ '']'')"

text \<open>
  \<^verbatim>\<open>json.load(f)\<close> on the text of the store. The model reads the documents whose
  value is a list of task dictionaries: an array of objects whose members are
  \<^verbatim>\<open>"desc"\<close> with a string and \<^verbatim>\<open>"done"\<close> with \<^verbatim>\<open>true\<close> or \<^verbatim>\<open>false\<close>, in any
  order and with any JSON whitespace between the tokens. Every other text is rejected
  with \<open>JSONDecodeError\<close>; a well-formed document of another shape, which Python would
  return as a value that is no task list, is outside the typed model and rejected too.
\<close>

text \<open>
  A string literal after its opening quote, as \<^verbatim>\<open>scanstring\<close> of the \<^verbatim>\<open>json\<close> module
  reads it (strict mode): up to the closing quote, with the escapes
  \<^verbatim>\<open>\" \\ \/ \b \f \n \r \t \uXXXX\<close>; a raw control character, an unknown escape and
  a missing closing quote are errors. The result is the string and the text after it.
  An escape \<^verbatim>\<open>\uXXXX\<close> of 256 or more names no character of the model.
\<close>

definition hex_value :: "char \<Rightarrow> nat option" where
  "hex_value c =
     (let n = (of_char c :: nat)
      in if 48 \<le> n \<and> n \<le> 57 then Some (n - 48)
         else if 97 \<le> n \<and> n \<le> 102 then Some (n - 87)
         else if 65 \<le> n \<and> n \<le> 70 then Some (n - 55)
         else None)"

definition hex4 :: "char \<Rightarrow> char \<Rightarrow> char \<Rightarrow> char \<Rightarrow> nat option" where
  "hex4 h1 h2 h3 h4 =
     (case (hex_value h1, hex_value h2, hex_value h3, hex_value h4) of
        (Some a, Some b, Some c, Some d) \<Rightarrow> Some (((a * 16 + b) * 16 + c) * 16 + d)
      | _ \<Rightarrow> None)"

definition unescape :: "char \<Rightarrow> char option" where
  "unescape e =
     (if e = CHR 0x22 then Some (CHR 0x22)
      else if e = CHR 0x5C then Some (CHR 0x5C)
      else if e = CHR ''/'' then Some (CHR ''/'')
      else if e = CHR ''b'' then Some (CHR 0x08)
      else if e = CHR ''f'' then Some (CHR 0x0C)
      else if e = CHR ''n'' then Some (CHR 0x0A)
      else if e = CHR ''r'' then Some (CHR 0x0D)
      else if e = CHR ''t'' then Some (CHR 0x09)
      else None)"

definition push :: "char \<Rightarrow> (string \<times> string) option \<Rightarrow> (string \<times> string) option" where
  "push c r = map_option (\<lambda>(s, rest). (c # s, rest)) r"

fun scanstring :: "string \<Rightarrow> (string \<times> string) option" where
  "scanstring [] = None"
| "scanstring (c # cs) =
     (if c = CHR 0x22 then Some ([], cs)
      else if c = CHR 0x5C then
        (case cs of
           [] \<Rightarrow> None
         | e # cs1 \<Rightarrow>
             if e = CHR ''u'' then
               (case cs1 of
                  h1 # h2 # h3 # h4 # cs2 \<Rightarrow>
                    (case hex4 h1 h2 h3 h4 of
                       None \<Rightarrow> None
                     | Some n \<Rightarrow> if n < 256 then push (char_of n) (scanstring cs2) else None)
                | _ \<Rightarrow> None)
             else
               (case unescape e of
                  None \<Rightarrow> None
                | Some x \<Rightarrow> push x (scanstring cs1)))
      else if (of_char c :: nat) < 0x20 then None
      else push c (scanstring cs))"

lemma scanstring_shorter: "scanstring cs = Some (s, r) \<Longrightarrow> length r < length cs"
  apply (induction cs arbitrary: s r rule: scanstring.induct)
   apply simp
  apply (fastforce simp: push_def split: if_splits list.splits option.splits)
  done

text \<open>
  The tokens of a document: punctuation, string literals and the literals
  \<^verbatim>\<open>true\<close> and \<^verbatim>\<open>false\<close>, with the whitespace of JSON (space, tab, line feed,
  carriage return) skipped between them.
\<close>

datatype token =
  LBracket | RBracket | LBrace | RBrace | Comma | Colon | TString string | TTrue | TFalse

definition whitespace :: "char \<Rightarrow> bool" where
  "whitespace c \<longleftrightarrow> c = CHR '' '' \<or> c = CHR 0x09 \<or> c = CHR 0x0A \<or> c = CHR 0x0D"

definition emit :: "token \<Rightarrow> token list option \<Rightarrow> token list option" where
  "emit t r = map_option (Cons t) r"

function tokenize :: "string \<Rightarrow> token list option" where
  "tokenize [] = Some []"
| "tokenize (c # cs) =
     (if whitespace c then tokenize cs
      else if c = CHR ''['' then emit LBracket (tokenize cs)
      else if c = CHR '']'' then emit RBracket (tokenize cs)
      else if c = CHR ''{'' then emit LBrace (tokenize cs)
      else if c = CHR ''}'' then emit RBrace (tokenize cs)
      else if c = CHR '','' then emit Comma (tokenize cs)
      else if c = CHR '':'' then emit Colon (tokenize cs)
      else if c = CHR 0x22 then
        (case scanstring cs of
           None \<Rightarrow> None
         | Some (s, rest) \<Rightarrow> emit (TString s) (tokenize rest))
      else if take 4 (c # cs) = ''true'' then emit TTrue (tokenize (drop 3 cs))
      else if take 5 (c # cs) = ''false'' then emit TFalse (tokenize (drop 4 cs))
      else None)"
  by pat_completeness auto
termination
  by (relation "measure length") (auto dest: scanstring_shorter)

text \<open>
  The members of an object after its opening brace, up to the closing brace: the
  \<^verbatim>\<open>"key": value\<close> pairs in the order of the text.
\<close>

datatype jvalue = JString string | JBool bool

fun member_value :: "token \<Rightarrow> jvalue option" where
  "member_value (TString s) = Some (JString s)"
| "member_value TTrue = Some (JBool True)"
| "member_value TFalse = Some (JBool False)"
| "member_value _ = None"

fun parse_members :: "token list \<Rightarrow> ((string \<times> jvalue) list \<times> token list) option" where
  "parse_members (TString k # Colon # v # sep # rest) =
     (case member_value v of
        None \<Rightarrow> None
      | Some x \<Rightarrow>
          if sep = RBrace then Some ([(k, x)], rest)
          else if sep = Comma then
            map_option (\<lambda>(ms, r). ((k, x) # ms, r)) (parse_members rest)
          else None)"
| "parse_members _ = None"

text \<open>
  The dictionary of the pairs (a later pair of a key replaces an earlier one, as
  in Python) is a task when its keys are \<^verbatim>\<open>desc\<close> and \<^verbatim>\<open>done\<close>, the first with a
  string and the second with a Boolean.
\<close>

definition task_of_members :: "(string \<times> jvalue) list \<Rightarrow> task option" where
  "task_of_members ms =
     (if set (map fst ms) = {''desc'', ''done''} then
        (case (map_of (rev ms) ''desc'', map_of (rev ms) ''done'') of
           (Some (JString d), Some (JBool b)) \<Rightarrow> Some \<lparr>desc = d, done = b\<rparr>
         | _ \<Rightarrow> None)
      else None)"

lemma parse_members_shorter: "parse_members ts = Some (ms, r) \<Longrightarrow> length r < length ts"
  apply (induction ts arbitrary: ms r rule: parse_members.induct)
   apply (fastforce split: if_splits option.splits)
  apply simp_all
  done

text \<open>
  The elements of a non-empty array after its opening bracket: objects separated by
  commas, then the closing bracket and nothing more.
\<close>

function parse_elements :: "token list \<Rightarrow> task list option" where
  "parse_elements (LBrace # ts) =
     (case parse_members ts of
        None \<Rightarrow> None
      | Some (ms, rest) \<Rightarrow>
          (case task_of_members ms of
             None \<Rightarrow> None
           | Some t \<Rightarrow>
               (case rest of
                  [RBracket] \<Rightarrow> Some [t]
                | Comma # rest' \<Rightarrow> map_option (Cons t) (parse_elements rest')
                | _ \<Rightarrow> None)))"
| "parse_elements [] = None"
| "parse_elements (LBracket # ts) = None"
| "parse_elements (RBracket # ts) = None"
| "parse_elements (RBrace # ts) = None"
| "parse_elements (Comma # ts) = None"
| "parse_elements (Colon # ts) = None"
| "parse_elements (TString s # ts) = None"
| "parse_elements (TTrue # ts) = None"
| "parse_elements (TFalse # ts) = None"
  by pat_completeness auto
termination
  by (relation "measure length") (auto dest: parse_members_shorter)

definition parse_document :: "token list \<Rightarrow> task list option" where
  "parse_document ts =
     (case ts of
        [] \<Rightarrow> None
      | t # ts' \<Rightarrow>
          if t = LBracket then (if ts' = [RBracket] then Some [] else parse_elements ts')
          else None)"

definition json_loads :: "string \<Rightarrow> error + task list" where
  "json_loads s =
     (case tokenize s of
        None \<Rightarrow> Inl JSONDecodeError
      | Some ts \<Rightarrow>
          (case parse_document ts of
             None \<Rightarrow> Inl JSONDecodeError
           | Some xs \<Rightarrow> Inr xs))"

text \<open>
  The tokens of the text that \<open>json_dumps\<close> writes for a task and for the items of
  a list, against which the tokenizer is checked below.
\<close>

definition task_tokens :: "task \<Rightarrow> token list" where
  "task_tokens t =
     [LBrace, TString ''desc'', Colon, TString (desc t), Comma,
      TString ''done'', Colon, (if done t then TTrue else TFalse), RBrace]"

fun items_tokens :: "task list \<Rightarrow> token list" where
  "items_tokens [] = []"
| "items_tokens [t] = task_tokens t"
| "items_tokens (t # ts) = task_tokens t @ Comma # items_tokens ts"

text \<open>
  \<^verbatim>\<open>save_tasks(tasks)\<close> opens \<^verbatim>\<open>TODO_FILE\<close> for writing and dumps the list: afterwards
  the file exists and holds the text of the list, whatever it held before.
  \<^verbatim>\<open>load_tasks()\<close> returns the empty list when the file does not exist and the result
  of \<^verbatim>\<open>json.load\<close> otherwise; it catches nothing, so a decoding error is its outcome.
\<close>

definition save_tasks :: "task list \<Rightarrow> state \<Rightarrow> state" where
  "save_tasks ts s = s\<lparr>todo_file := Some (json_dumps ts)\<rparr>"

definition load_tasks :: "state \<Rightarrow> error + task list" where
  "load_tasks s =
     (case todo_file s of
        None \<Rightarrow> Inr []
      | Some content \<Rightarrow> json_loads content)"

section \<open>Command engine\<close>

text \<open>
  The string literal that \<^verbatim>\<open>list_tasks\<close> prints between the brackets for a task
  that is done, as the bytes of the source file; a task that is not done gets a space.
\<close>

definition done_marker :: string where
  "done_marker = [CHR 0xC3, CHR 0xA2, CHR 0xC5, CHR 0x93, CHR 0xE2, CHR 0x80, CHR 0x9C]"

definition status :: "task \<Rightarrow> string" where
  "status t = (if done t then done_marker else '' '')"

definition list_tasks :: "state \<Rightarrow> state" where
  "list_tasks s =
     (if tasks s = [] then print NoTasksYet s
      else foldl (\<lambda>s' (i, t). print (TaskLine i (status t) (desc t)) s') s
             (enumerate 1 (tasks s)))"

definition add_task :: "state \<Rightarrow> string \<Rightarrow> state" where
  "add_task s d =
     (let ts = tasks s @ [\<lparr>desc = d, done = False\<rparr>]
      in print (Added d) (save_tasks ts (s\<lparr>tasks := ts\<rparr>)))"

text \<open>
  The body of the \<^verbatim>\<open>try\<close> of \<^verbatim>\<open>complete_task\<close> and \<^verbatim>\<open>remove_task\<close> indexes the list
  at \<^verbatim>\<open>idx-1\<close> first; the \<^verbatim>\<open>IndexError\<close> of that step is the only exception caught, and
  it leaves the list, the file and the output as they were before the message.
\<close>

definition complete_task :: "state \<Rightarrow> int \<Rightarrow> state" where
  "complete_task s idx =
     (case py_index (length (tasks s)) (idx - 1) of
        None \<Rightarrow> print (NoTaskWithID idx) s
      | Some k \<Rightarrow>
          let ts = (tasks s)[k := (tasks s ! k)\<lparr>done := True\<rparr>]
          in print (Completed idx) (save_tasks ts (s\<lparr>tasks := ts\<rparr>)))"

definition remove_task :: "state \<Rightarrow> int \<Rightarrow> state" where
  "remove_task s idx =
     (case py_index (length (tasks s)) (idx - 1) of
        None \<Rightarrow> print (NoTaskWithID idx) s
      | Some k \<Rightarrow>
          let removed = tasks s ! k;
              ts = take k (tasks s) @ drop (Suc k) (tasks s)
          in print (Removed (desc removed)) (save_tasks ts (s\<lparr>tasks := ts\<rparr>)))"

section \<open>Text-box view\<close>

text \<open>
  \<^verbatim>\<open>str.strip()\<close> and \<^verbatim>\<open>str.splitlines()\<close> on code points below 256. The whitespace
  of \<^verbatim>\<open>strip\<close> is \<^verbatim>\<open>\t \n \v \f \r\<close>, \<^verbatim>\<open>\x1c..\x1f\<close>, the space, \<^verbatim>\<open>\x85\<close> and
  \<^verbatim>\<open>\xa0\<close>; a line ends at \<^verbatim>\<open>\n \v \f \r\<close>, \<^verbatim>\<open>\x1c \x1d \x1e \x85\<close>, and \<^verbatim>\<open>\r\n\<close>
  is one line end. The text after the last line end is a line when it is not empty.
\<close>

definition isspace :: "char \<Rightarrow> bool" where
  "isspace c =
     (let n = (of_char c :: nat)
      in (9 \<le> n \<and> n \<le> 13) \<or> (28 \<le> n \<and> n \<le> 32) \<or> n = 0x85 \<or> n = 0xA0)"

definition strip :: "string \<Rightarrow> string" where
  "strip s = rev (dropWhile isspace (rev (dropWhile isspace s)))"

definition linebreak :: "char \<Rightarrow> bool" where
  "linebreak c =
     (let n = (of_char c :: nat)
      in (10 \<le> n \<and> n \<le> 13) \<or> (28 \<le> n \<and> n \<le> 30) \<or> n = 0x85)"

fun splitlines_from :: "string \<Rightarrow> string \<Rightarrow> string list" where
  "splitlines_from cur [] = (if cur = [] then [] else [cur])"
| "splitlines_from cur [c] = (if linebreak c then [cur] else [cur @ [c]])"
| "splitlines_from cur (c # d # cs) =
     (if c = CHR 0x0D \<and> d = CHR 0x0A then cur # splitlines_from [] cs
      else if linebreak c then cur # splitlines_from [] (d # cs)
      else splitlines_from (cur @ [c]) (d # cs))"

definition splitlines :: "string \<Rightarrow> string list" where
  "splitlines s = splitlines_from [] s"

text \<open>
  \<^verbatim>\<open>save_text\<close> of \<^verbatim>\<open>run_gui\<close>, bound to every key release. \<open>content\<close> is what
  \<^verbatim>\<open>text.get("1.0", tk.END)\<close> returns, the text of the widget.
\<close>

definition save_text :: "string \<Rightarrow> state \<Rightarrow> state" where
  "save_text content s =
     (let lines = splitlines (strip content);
          ts = map (\<lambda>line. \<lparr>desc = line, done = False\<rparr>)
                 (filter (\<lambda>line. strip line \<noteq> []) lines)
      in save_tasks ts (s\<lparr>tasks := ts\<rparr>))"

text \<open>
  The number of lines that pass the filter \<^verbatim>\<open>if line.strip()\<close> of \<^verbatim>\<open>save_text\<close>, the
  non-blank lines, among the lines of a text read after the unfinished line \<open>cur\<close>.
\<close>

definition nonblank_lines :: "string \<Rightarrow> string \<Rightarrow> nat" where
  "nonblank_lines cur xs = length (filter (\<lambda>line. strip line \<noteq> []) (splitlines_from cur xs))"

section \<open>The decoder inverts the encoder\<close>

lemma of_char_lt_256: "(of_char c :: nat) < 256"
  by (metis of_char_mod_256 mod_less_divisor zero_less_numeral)

lemma hex_value_hex_digit: "n < 16 \<Longrightarrow> hex_value (hex_digit n) = Some n"
  by (simp add: hex_value_def hex_digit_def Let_def)

lemma hex4_byte:
  "hex4 (CHR ''0'') (CHR ''0'') (hex_digit (of_char c div 16)) (hex_digit (of_char c mod 16))
     = Some (of_char c)"
proof -
  have hi: "(of_char c :: nat) div 16 < 16"
    using of_char_lt_256 [of c] by arith
  have z: "hex_value (CHR ''0'') = Some 0"
    by (simp add: hex_value_def)
  show ?thesis
    by (simp add: hex4_def z hex_value_hex_digit hi)
qed

lemma scanstring_escape_char: "scanstring (escape_char c @ xs) = push c (scanstring xs)"
proof (cases "(0x20::nat) \<le> of_char c \<and> (of_char c :: nat) \<le> 0x7E \<or> c \<in> {CHR 0x22, CHR 0x5C, CHR 0x0A, CHR 0x0D, CHR 0x09, CHR 0x0C, CHR 0x08}")
  case True
  then show ?thesis
    by (auto simp: escape_char_def unescape_def)
next
  case False
  then have esc: "escape_char c = [CHR 0x5C, CHR ''u'', CHR ''0'', CHR ''0'',
            hex_digit (of_char c div 16), hex_digit (of_char c mod 16)]"
    by (simp add: escape_char_def)
  show ?thesis
    by (simp add: esc hex4_byte of_char_lt_256)
qed

lemma scanstring_escaped:
  "scanstring (concat (map escape_char s) @ CHR 0x22 # rest) = Some (s, rest)"
  by (induction s) (simp_all add: scanstring_escape_char push_def)

lemma tokenize_encode_string:
  "tokenize (encode_string s @ rest) = emit (TString s) (tokenize rest)"
  by (simp add: encode_string_def whitespace_def scanstring_escaped)

lemma tokenize_skip:
  "tokenize (CHR '' '' # xs) = tokenize xs"
  "tokenize (CHR 0x0A # xs) = tokenize xs"
  by (simp_all add: whitespace_def)

lemma tokenize_punct:
  "tokenize (CHR ''['' # xs) = emit LBracket (tokenize xs)"
  "tokenize (CHR '']'' # xs) = emit RBracket (tokenize xs)"
  "tokenize (CHR ''{'' # xs) = emit LBrace (tokenize xs)"
  "tokenize (CHR ''}'' # xs) = emit RBrace (tokenize xs)"
  "tokenize (CHR '','' # xs) = emit Comma (tokenize xs)"
  "tokenize (CHR '':'' # xs) = emit Colon (tokenize xs)"
  by (simp_all add: whitespace_def)

lemma tokenize_literal:
  "tokenize (CHR ''t'' # CHR ''r'' # CHR ''u'' # CHR ''e'' # xs) = emit TTrue (tokenize xs)"
  "tokenize (CHR ''f'' # CHR ''a'' # CHR ''l'' # CHR ''s'' # CHR ''e'' # xs) = emit TFalse (tokenize xs)"
  by (simp_all add: whitespace_def)

lemma tokenize_encode_task:
  "tokenize (encode_task t @ rest) = map_option ((@) (task_tokens t)) (tokenize rest)"
proof -
  have "tokenize (encode_task t @ rest) =
    emit LBrace (emit (TString ''desc'') (emit Colon (emit (TString (desc t)) (emit Comma
      (emit (TString ''done'') (emit Colon
         (emit (if done t then TTrue else TFalse) (emit RBrace (tokenize rest)))))))))"
    unfolding encode_task_def
    by (simp add: tokenize_skip tokenize_punct tokenize_literal
        tokenize_encode_string del: tokenize.simps)
  then show ?thesis
    by (cases "tokenize rest") (simp_all add: emit_def task_tokens_def)
qed

lemma tokenize_encode_items:
  "tokenize (encode_items ts @ rest) = map_option ((@) (items_tokens ts)) (tokenize rest)"
proof (induction ts rule: encode_items.induct)
  case 1
  show ?case by (simp add: option.map_ident)
next
  case (2 t)
  show ?case by (simp add: tokenize_encode_task)
next
  case (3 t u us)
  have e: "encode_items (t # u # us) =
      encode_task t @ '','' @ [CHR 0x0A] @ ''  '' @ encode_items (u # us)"
    by simp
  have "tokenize (encode_items (t # u # us) @ rest) =
     map_option ((@) (task_tokens t)) (emit Comma (tokenize (encode_items (u # us) @ rest)))"
    by (simp add: e tokenize_encode_task tokenize_skip tokenize_punct
        del: tokenize.simps encode_items.simps)
  then show ?case
    by (cases "tokenize rest") (simp_all add: "3.IH" emit_def del: encode_items.simps tokenize.simps)
qed

lemma tokenize_json_dumps:
  "tokenize (json_dumps ts) = Some (LBracket # items_tokens ts @ [RBracket])"
proof (cases "ts = []")
  case True
  then show ?thesis
    by (simp add: json_dumps_def whitespace_def emit_def)
next
  case False
  have "tokenize (json_dumps ts) = emit LBracket (tokenize (encode_items ts @ [CHR 0x0A] @ '']''))"
    using False by (simp add: json_dumps_def tokenize_skip tokenize_punct del: tokenize.simps)
  also have "\<dots> = emit LBracket (map_option ((@) (items_tokens ts)) (Some [RBracket]))"
    by (simp add: tokenize_encode_items whitespace_def emit_def)
  finally show ?thesis
    by (simp add: emit_def)
qed

lemma parse_members_task:
  "parse_members (TString ''desc'' # Colon # TString d # Comma #
                  TString ''done'' # Colon # (if b then TTrue else TFalse) # RBrace # rest)
     = Some ([(''desc'', JString d), (''done'', JBool b)], rest)"
  by simp

lemma task_of_members_task:
  "task_of_members [(''desc'', JString (desc t)), (''done'', JBool (done t))] = Some t"
  by (auto simp: task_of_members_def)

lemma parse_elements_task:
  "parse_elements (task_tokens t @ rest) =
     (case rest of
        [RBracket] \<Rightarrow> Some [t]
      | Comma # rest' \<Rightarrow> map_option (Cons t) (parse_elements rest')
      | _ \<Rightarrow> None)"
  unfolding task_tokens_def
  by (simp add: parse_members_task task_of_members_task del: parse_members.simps)

lemma parse_elements_items:
  "ts \<noteq> [] \<Longrightarrow> parse_elements (items_tokens ts @ [RBracket]) = Some ts"
proof (induction ts rule: items_tokens.induct)
  case 1
  then show ?case by simp
next
  case (2 t)
  show ?case by (simp add: parse_elements_task del: parse_elements.simps)
next
  case (3 t u us)
  then show ?case by (simp add: parse_elements_task del: parse_elements.simps)
qed

lemma json_loads_dumps: "json_loads (json_dumps ts) = Inr ts"
proof (cases "ts = []")
  case True
  then show ?thesis
    by (simp add: json_loads_def tokenize_json_dumps parse_document_def)
next
  case False
  then have "items_tokens ts \<noteq> []"
    by (induction ts rule: items_tokens.induct) (simp_all add: task_tokens_def)
  then have "items_tokens ts @ [RBracket] \<noteq> [RBracket]"
    by simp
  then show ?thesis
    using False
    by (simp add: json_loads_def tokenize_json_dumps parse_document_def parse_elements_items
        del: parse_elements.simps)
qed

section \<open>Properties of the store\<close>

text \<open>
  C2. Round trip: for every task list \<open>ts\<close> and whatever the file held before,
  \<^verbatim>\<open>save_tasks(ts)\<close> followed by \<^verbatim>\<open>load_tasks()\<close> returns a list equal to \<open>ts\<close>.
\<close>

theorem save_load_roundtrip: "load_tasks (save_tasks ts s) = Inr ts"
  by (simp add: load_tasks_def save_tasks_def json_loads_dumps)

text \<open>
  C6. \<^verbatim>\<open>load_tasks()\<close> returns the empty list when the store file does not exist; when
  the file exists and its content is rejected by the decoder, the decoding error is the
  outcome of \<^verbatim>\<open>load_tasks()\<close> and no list is returned.
\<close>

theorem load_tasks_outcomes:
  "(todo_file s = None \<longrightarrow> load_tasks s = Inr []) \<and>
   (\<forall>content e. todo_file s = Some content \<and> json_loads content = Inl e \<longrightarrow>
      load_tasks s = Inl e)"
  by (simp add: load_tasks_def)

theorem load_tasks_outcomes_witness:
  "load_tasks \<lparr>tasks = [], todo_file = None, stdout = []\<rparr> = Inr [] \<and>
   json_loads ''[{'' = Inl JSONDecodeError \<and>
   load_tasks \<lparr>tasks = [], todo_file = Some ''[{'', stdout = []\<rparr> = Inl JSONDecodeError"
proof -
  have bad: "json_loads ''[{'' = Inl JSONDecodeError"
    by (simp add: json_loads_def whitespace_def emit_def parse_document_def)
  show ?thesis
    using load_tasks_outcomes [of "\<lparr>tasks = [], todo_file = None, stdout = []\<rparr>"]
      load_tasks_outcomes [of "\<lparr>tasks = [], todo_file = Some ''[{'', stdout = []\<rparr>"] bad
    by simp
qed

section \<open>Properties of the command engine\<close>

lemma py_index_valid:
  "1 \<le> i \<Longrightarrow> i \<le> int n \<Longrightarrow> py_index n (i - 1) = Some (nat i - 1)"
  by (auto simp: py_index_def Let_def)

lemma py_index_wrap:
  "1 - int n \<le> i \<Longrightarrow> i \<le> 0 \<Longrightarrow> py_index n (i - 1) = Some (nat (int n + i - 1))"
  by (auto simp: py_index_def Let_def)

lemma py_index_outside:
  "int n < i \<or> i \<le> - int n \<Longrightarrow> py_index n (i - 1) = None"
  by (auto simp: py_index_def Let_def)

lemma print_loop:
  "foldl (\<lambda>s' (i, t). print (f i t) s') s xs = s\<lparr>stdout := stdout s @ map (\<lambda>(i, t). f i t) xs\<rparr>"
  by (induction xs arbitrary: s) (auto simp: print_def)

lemma list_tasks_nonempty:
  assumes "tasks s \<noteq> []"
  shows "list_tasks s = s\<lparr>stdout := stdout s @
      map (\<lambda>i. TaskLine (i + 1) (status (tasks s ! i)) (desc (tasks s ! i))) [0..<length (tasks s)]\<rparr>"
proof -
  have "map (\<lambda>(i, t). TaskLine i (status t) (desc t)) (enumerate 1 (tasks s)) =
        map (\<lambda>i. TaskLine (i + 1) (status (tasks s ! i)) (desc (tasks s ! i))) [0..<length (tasks s)]"
    by (rule nth_equalityI) (simp_all add: nth_enumerate_eq)
  then have "foldl (\<lambda>s' (i, t). print (TaskLine i (status t) (desc t)) s') s (enumerate 1 (tasks s)) =
      s\<lparr>stdout := stdout s @
        map (\<lambda>i. TaskLine (i + 1) (status (tasks s ! i)) (desc (tasks s ! i))) [0..<length (tasks s)]\<rparr>"
    by (simp only: print_loop)
  with assms show ?thesis
    by (simp only: list_tasks_def if_False)
qed

lemma tasks_add_all:
  "tasks (foldl add_task s ds) = tasks s @ map (\<lambda>d. \<lparr>desc = d, done = False\<rparr>) ds"
  by (induction ds arbitrary: s) (simp_all add: add_task_def Let_def print_def save_tasks_def)

text \<open>
  C3. For every task list and every valid index \<open>i\<close> (\<open>1 \<le> i \<le> length\<close>),
  \<^verbatim>\<open>remove_task(tasks, i)\<close> makes the list one shorter, leaves the tasks before position
  \<open>i\<close> where they were and moves every task after position \<open>i\<close> one position down;
  the new list is saved and the removed description reported. Positions count from 0
  below: position \<open>i\<close> of the claim is \<open>nat i - 1\<close>.
\<close>

theorem remove_task_valid:
  assumes "1 \<le> i" and "i \<le> int (length (tasks s))"
  shows "length (tasks (remove_task s i)) = length (tasks s) - 1 \<and>
         (\<forall>j. j < nat i - 1 \<longrightarrow> tasks (remove_task s i) ! j = tasks s ! j) \<and>
         (\<forall>j. nat i - 1 \<le> j \<and> j < length (tasks s) - 1 \<longrightarrow>
              tasks (remove_task s i) ! j = tasks s ! (j + 1)) \<and>
         todo_file (remove_task s i) = Some (json_dumps (tasks (remove_task s i))) \<and>
         stdout (remove_task s i) = stdout s @ [Removed (desc (tasks s ! (nat i - 1)))]"
proof -
  let ?k = "nat i - 1"
  have k: "?k < length (tasks s)"
    using assms by linarith
  have r: "remove_task s i =
      print (Removed (desc (tasks s ! ?k)))
        (save_tasks (take ?k (tasks s) @ drop (Suc ?k) (tasks s))
           (s\<lparr>tasks := take ?k (tasks s) @ drop (Suc ?k) (tasks s)\<rparr>))"
    by (simp add: remove_task_def py_index_valid [OF assms] Let_def)
  have t: "tasks (remove_task s i) = take ?k (tasks s) @ drop (Suc ?k) (tasks s)"
    by (simp add: r print_def save_tasks_def)
  have len: "length (tasks (remove_task s i)) = length (tasks s) - 1"
    using k by (simp add: t)
  have before: "\<forall>j. j < ?k \<longrightarrow> tasks (remove_task s i) ! j = tasks s ! j"
    using k by (simp add: t nth_append)
  have after: "\<forall>j. ?k \<le> j \<and> j < length (tasks s) - 1 \<longrightarrow>
      tasks (remove_task s i) ! j = tasks s ! (j + 1)"
  proof (intro allI impI)
    fix j
    assume j: "?k \<le> j \<and> j < length (tasks s) - 1"
    then have "tasks (remove_task s i) ! j = drop (Suc ?k) (tasks s) ! (j - ?k)"
      using k by (simp add: t nth_append min_def)
    also have "\<dots> = tasks s ! (j + 1)"
      using j k by simp
    finally show "tasks (remove_task s i) ! j = tasks s ! (j + 1)" .
  qed
  have saved: "todo_file (remove_task s i) = Some (json_dumps (tasks (remove_task s i)))"
    by (simp add: r print_def save_tasks_def)
  have out: "stdout (remove_task s i) = stdout s @ [Removed (desc (tasks s ! ?k))]"
    by (simp add: r print_def save_tasks_def)
  from len before after saved out show ?thesis
    by blast
qed


theorem remove_task_valid_witness:
  "(1::int) \<le> 2 \<and>
   (2::int) \<le> int (length (tasks \<lparr>tasks = [\<lparr>desc = ''a'', done = False\<rparr>, \<lparr>desc = ''b'', done = True\<rparr>,
       \<lparr>desc = ''c'', done = False\<rparr>], todo_file = None, stdout = []\<rparr>)) \<and>
   tasks (remove_task \<lparr>tasks = [\<lparr>desc = ''a'', done = False\<rparr>, \<lparr>desc = ''b'', done = True\<rparr>,
       \<lparr>desc = ''c'', done = False\<rparr>], todo_file = None, stdout = []\<rparr> 2) =
     [\<lparr>desc = ''a'', done = False\<rparr>, \<lparr>desc = ''c'', done = False\<rparr>] \<and>
   stdout (remove_task \<lparr>tasks = [\<lparr>desc = ''a'', done = False\<rparr>, \<lparr>desc = ''b'', done = True\<rparr>,
       \<lparr>desc = ''c'', done = False\<rparr>], todo_file = None, stdout = []\<rparr> 2) = [Removed ''b'']"
  using remove_task_valid [of 2 "\<lparr>tasks = [\<lparr>desc = ''a'', done = False\<rparr>, \<lparr>desc = ''b'', done = True\<rparr>,
       \<lparr>desc = ''c'', done = False\<rparr>], todo_file = None, stdout = []\<rparr>"]
  by (simp add: remove_task_def py_index_def print_def save_tasks_def Let_def)

text \<open>
  C4. For every task list and every valid index \<open>i\<close> (\<open>1 \<le> i \<le> length\<close>),
  \<^verbatim>\<open>complete_task(tasks, i)\<close> sets the done flag of the task at position \<open>i\<close>, keeps its
  description, leaves every other task and the length of the list unchanged, saves the
  list and reports the completion.
\<close>

theorem complete_task_valid:
  assumes "1 \<le> i" and "i \<le> int (length (tasks s))"
  shows "length (tasks (complete_task s i)) = length (tasks s) \<and>
         done (tasks (complete_task s i) ! (nat i - 1)) \<and>
         desc (tasks (complete_task s i) ! (nat i - 1)) = desc (tasks s ! (nat i - 1)) \<and>
         (\<forall>j. j < length (tasks s) \<and> j \<noteq> nat i - 1 \<longrightarrow>
              tasks (complete_task s i) ! j = tasks s ! j) \<and>
         todo_file (complete_task s i) = Some (json_dumps (tasks (complete_task s i))) \<and>
         stdout (complete_task s i) = stdout s @ [Completed i]"
proof -
  let ?k = "nat i - 1"
  have k: "?k < length (tasks s)"
    using assms by linarith
  have c: "complete_task s i =
      print (Completed i)
        (save_tasks ((tasks s)[?k := (tasks s ! ?k)\<lparr>done := True\<rparr>])
           (s\<lparr>tasks := (tasks s)[?k := (tasks s ! ?k)\<lparr>done := True\<rparr>]\<rparr>))"
    by (simp add: complete_task_def py_index_valid [OF assms] Let_def)
  have t: "tasks (complete_task s i) = (tasks s)[?k := (tasks s ! ?k)\<lparr>done := True\<rparr>]"
    by (simp add: c print_def save_tasks_def)
  show ?thesis
    using k by (simp add: t) (simp add: c print_def save_tasks_def)
qed

theorem complete_task_valid_witness:
  "(1::int) \<le> 2 \<and>
   (2::int) \<le> int (length (tasks \<lparr>tasks = [\<lparr>desc = ''a'', done = False\<rparr>, \<lparr>desc = ''b'', done = False\<rparr>,
       \<lparr>desc = ''c'', done = False\<rparr>], todo_file = None, stdout = []\<rparr>)) \<and>
   tasks (complete_task \<lparr>tasks = [\<lparr>desc = ''a'', done = False\<rparr>, \<lparr>desc = ''b'', done = False\<rparr>,
       \<lparr>desc = ''c'', done = False\<rparr>], todo_file = None, stdout = []\<rparr> 2) =
     [\<lparr>desc = ''a'', done = False\<rparr>, \<lparr>desc = ''b'', done = True\<rparr>, \<lparr>desc = ''c'', done = False\<rparr>] \<and>
   stdout (complete_task \<lparr>tasks = [\<lparr>desc = ''a'', done = False\<rparr>, \<lparr>desc = ''b'', done = False\<rparr>,
       \<lparr>desc = ''c'', done = False\<rparr>], todo_file = None, stdout = []\<rparr> 2) = [Completed 2]"
  using complete_task_valid [of 2 "\<lparr>tasks = [\<lparr>desc = ''a'', done = False\<rparr>, \<lparr>desc = ''b'', done = False\<rparr>,
       \<lparr>desc = ''c'', done = False\<rparr>], todo_file = None, stdout = []\<rparr>"]
  by (simp add: complete_task_def py_index_def print_def save_tasks_def Let_def)

lemma mark_done_again: "done t \<Longrightarrow> t\<lparr>done := True\<rparr> = t"
  by (cases t) simp

text \<open>
  C10. \<^verbatim>\<open>complete_task\<close> is idempotent on valid indices: applied a second time with the
  same index it leaves the list and the file as the first application made them, and
  it reports a completion again, not an error.
\<close>

theorem complete_task_idempotent:
  assumes "1 \<le> i" and "i \<le> int (length (tasks s))"
  shows "tasks (complete_task (complete_task s i) i) = tasks (complete_task s i) \<and>
         todo_file (complete_task (complete_task s i) i) = todo_file (complete_task s i) \<and>
         stdout (complete_task (complete_task s i) i) = stdout (complete_task s i) @ [Completed i]"
proof -
  let ?k = "nat i - 1"
  let ?s1 = "complete_task s i"
  have k: "?k < length (tasks s)"
    using assms by linarith
  have first: "length (tasks ?s1) = length (tasks s)" "done (tasks ?s1 ! ?k)"
    using complete_task_valid [OF assms] by simp_all
  have again: "i \<le> int (length (tasks ?s1))"
    using assms first by simp
  have same: "(tasks ?s1)[?k := (tasks ?s1 ! ?k)\<lparr>done := True\<rparr>] = tasks ?s1"
    using first by (simp add: mark_done_again)
  have c: "complete_task ?s1 i =
      print (Completed i) (save_tasks (tasks ?s1) (?s1\<lparr>tasks := tasks ?s1\<rparr>))"
    using same
    by (simp add: complete_task_def [of ?s1] py_index_valid [OF assms(1) again] Let_def)
  have saved: "todo_file ?s1 = Some (json_dumps (tasks ?s1))"
    using complete_task_valid [OF assms] by simp
  show ?thesis
    by (simp add: c print_def save_tasks_def saved)
qed

theorem complete_task_idempotent_witness:
  "(1::int) \<le> 1 \<and>
   (1::int) \<le> int (length (tasks \<lparr>tasks = [\<lparr>desc = ''a'', done = False\<rparr>], todo_file = None, stdout = []\<rparr>)) \<and>
   tasks (complete_task (complete_task \<lparr>tasks = [\<lparr>desc = ''a'', done = False\<rparr>], todo_file = None,
       stdout = []\<rparr> 1) 1) = [\<lparr>desc = ''a'', done = True\<rparr>] \<and>
   stdout (complete_task (complete_task \<lparr>tasks = [\<lparr>desc = ''a'', done = False\<rparr>], todo_file = None,
       stdout = []\<rparr> 1) 1) = [Completed 1, Completed 1]"
  using complete_task_idempotent [of 1 "\<lparr>tasks = [\<lparr>desc = ''a'', done = False\<rparr>], todo_file = None, stdout = []\<rparr>"]
  by (simp add: complete_task_def py_index_def print_def save_tasks_def Let_def)

text \<open>
  C8. \<^verbatim>\<open>list_tasks\<close> on an empty list prints the placeholder message and no task
  line; on a non-empty list it prints one line for each task, in the order of the list,
  with the position of the task counted from 1, its completion marker and its
  description. The marker is the done marker exactly for the tasks that are done.
  Nothing but the output changes.
\<close>

theorem list_tasks_output:
  "(tasks s = [] \<longrightarrow> list_tasks s = s\<lparr>stdout := stdout s @ [NoTasksYet]\<rparr>) \<and>
   (tasks s \<noteq> [] \<longrightarrow>
      list_tasks s = s\<lparr>stdout := stdout s @
        map (\<lambda>i. TaskLine (i + 1) (status (tasks s ! i)) (desc (tasks s ! i)))
          [0..<length (tasks s)]\<rparr>) \<and>
   (\<forall>t. (status t = done_marker) = done t)"
proof -
  have "\<forall>t. (status t = done_marker) = done t"
    by (simp add: status_def done_marker_def)
  then show ?thesis
    by (simp add: list_tasks_nonempty) (simp add: list_tasks_def print_def)
qed

theorem list_tasks_output_witness:
  "list_tasks \<lparr>tasks = [], todo_file = None, stdout = []\<rparr> =
     \<lparr>tasks = [], todo_file = None, stdout = [NoTasksYet]\<rparr> \<and>
   stdout (list_tasks \<lparr>tasks = [\<lparr>desc = ''a'', done = True\<rparr>, \<lparr>desc = ''b'', done = False\<rparr>],
       todo_file = None, stdout = []\<rparr>) =
     [TaskLine 1 done_marker ''a'', TaskLine 2 '' '' ''b'']"
  using list_tasks_output [of "\<lparr>tasks = [], todo_file = None, stdout = []\<rparr>"]
    list_tasks_output [of "\<lparr>tasks = [\<lparr>desc = ''a'', done = True\<rparr>, \<lparr>desc = ''b'', done = False\<rparr>],
       todo_file = None, stdout = []\<rparr>"]
  by (simp add: status_def upt_conv_Cons)

text \<open>
  C5. For every sequence \<open>ds\<close> of descriptions added one after the other to any list,
  each \<^verbatim>\<open>add_task\<close> appends a task with \<open>done = False\<close> at the end: the final list is
  the old one followed by the new tasks in the order of insertion, and \<^verbatim>\<open>list_tasks\<close>
  prints its tasks with the positions 1, 2, ... in that order. Starting from the empty
  list the lines are those of \<open>ds\<close>, each with the blank marker.
\<close>

theorem add_sequence_listed_in_order:
  "tasks (foldl add_task s ds) = tasks s @ map (\<lambda>d. \<lparr>desc = d, done = False\<rparr>) ds \<and>
   (tasks s = [] \<and> ds \<noteq> [] \<longrightarrow>
      stdout (list_tasks (foldl add_task s ds)) =
        stdout (foldl add_task s ds) @ map (\<lambda>i. TaskLine (i + 1) '' '' (ds ! i)) [0..<length ds]) \<and>
   (tasks (foldl add_task s ds) \<noteq> [] \<longrightarrow>
      stdout (list_tasks (foldl add_task s ds)) =
        stdout (foldl add_task s ds) @
        map (\<lambda>i. TaskLine (i + 1) (status (tasks (foldl add_task s ds) ! i))
                    (desc (tasks (foldl add_task s ds) ! i)))
          [0..<length (tasks (foldl add_task s ds))])"
proof -
  let ?f = "foldl add_task s ds"
  have t: "tasks ?f = tasks s @ map (\<lambda>d. \<lparr>desc = d, done = False\<rparr>) ds"
    by (rule tasks_add_all)
  have general: "tasks ?f \<noteq> [] \<longrightarrow>
      stdout (list_tasks ?f) = stdout ?f @
        map (\<lambda>i. TaskLine (i + 1) (status (tasks ?f ! i)) (desc (tasks ?f ! i)))
          [0..<length (tasks ?f)]"
    by (simp add: list_tasks_nonempty)
  have fresh: "tasks s = [] \<and> ds \<noteq> [] \<longrightarrow>
      stdout (list_tasks ?f) =
        stdout ?f @ map (\<lambda>i. TaskLine (i + 1) '' '' (ds ! i)) [0..<length ds]"
  proof
    assume a: "tasks s = [] \<and> ds \<noteq> []"
    then have t': "tasks ?f = map (\<lambda>d. \<lparr>desc = d, done = False\<rparr>) ds"
      by (simp add: t)
    have "tasks ?f \<noteq> []"
      using a by (simp add: t')
    then have "stdout (list_tasks ?f) = stdout ?f @
        map (\<lambda>i. TaskLine (i + 1) (status (tasks ?f ! i)) (desc (tasks ?f ! i)))
          [0..<length (tasks ?f)]"
      using general by blast
    also have "map (\<lambda>i. TaskLine (i + 1) (status (tasks ?f ! i)) (desc (tasks ?f ! i)))
          [0..<length (tasks ?f)] = map (\<lambda>i. TaskLine (i + 1) '' '' (ds ! i)) [0..<length ds]"
      by (simp add: t' status_def)
    finally show "stdout (list_tasks ?f) =
        stdout ?f @ map (\<lambda>i. TaskLine (i + 1) '' '' (ds ! i)) [0..<length ds]" .
  qed
  from t fresh general show ?thesis
    by blast
qed


theorem add_sequence_listed_in_order_witness:
  "tasks (foldl add_task \<lparr>tasks = [], todo_file = None, stdout = []\<rparr> [''buy milk'', ''walk'']) =
     [\<lparr>desc = ''buy milk'', done = False\<rparr>, \<lparr>desc = ''walk'', done = False\<rparr>] \<and>
   stdout (list_tasks (foldl add_task \<lparr>tasks = [], todo_file = None, stdout = []\<rparr>
       [''buy milk'', ''walk''])) =
     [Added ''buy milk'', Added ''walk'', TaskLine 1 '' '' ''buy milk'', TaskLine 2 '' '' ''walk'']"
  using add_sequence_listed_in_order [of "\<lparr>tasks = [], todo_file = None, stdout = []\<rparr>"
      "[''buy milk'', ''walk'']"]
  by (simp add: add_task_def print_def save_tasks_def Let_def upt_conv_Cons)

text \<open>
  Indices above the length and indices from \<open>- length\<close> downwards are rejected: the
  message is printed and nothing else changes.
\<close>

lemma out_of_range_rejected:
  assumes "int (length (tasks s)) < idx \<or> idx \<le> - int (length (tasks s))"
  shows "complete_task s idx = print (NoTaskWithID idx) s"
    and "remove_task s idx = print (NoTaskWithID idx) s"
  by (simp_all add: complete_task_def remove_task_def py_index_outside [OF assms])

text \<open>
  C1. The claim: every index \<open>i\<close> with \<open>i < 1\<close> or \<open>i > length\<close> leaves the list
  unchanged, saves nothing and reports the error. On the list of the one task \<open>a\<close> the
  index 0 does none of that: \<^verbatim>\<open>complete_task\<close> marks the task done, \<^verbatim>\<open>remove_task\<close>
  removes it, and both save the list and report success.
\<close>

theorem index_zero_not_rejected:
  "complete_task \<lparr>tasks = [\<lparr>desc = ''a'', done = False\<rparr>], todo_file = None, stdout = []\<rparr> 0 =
     \<lparr>tasks = [\<lparr>desc = ''a'', done = True\<rparr>],
      todo_file = Some (json_dumps [\<lparr>desc = ''a'', done = True\<rparr>]),
      stdout = [Completed 0]\<rparr> \<and>
   remove_task \<lparr>tasks = [\<lparr>desc = ''a'', done = False\<rparr>], todo_file = None, stdout = []\<rparr> 0 =
     \<lparr>tasks = [], todo_file = Some (json_dumps []), stdout = [Removed ''a'']\<rparr>"
  by (simp add: complete_task_def remove_task_def py_index_def print_def save_tasks_def Let_def)

text \<open>
  C9, as stated, promises that the indices down to \<open>- length\<close> act on a task. On a list
  of two tasks the index \<open>- 2\<close> is rejected by both functions.
\<close>

theorem minus_length_rejected:
  "complete_task \<lparr>tasks = [\<lparr>desc = ''a'', done = False\<rparr>, \<lparr>desc = ''b'', done = False\<rparr>],
       todo_file = None, stdout = []\<rparr> (- 2) =
     \<lparr>tasks = [\<lparr>desc = ''a'', done = False\<rparr>, \<lparr>desc = ''b'', done = False\<rparr>],
      todo_file = None, stdout = [NoTaskWithID (- 2)]\<rparr> \<and>
   remove_task \<lparr>tasks = [\<lparr>desc = ''a'', done = False\<rparr>, \<lparr>desc = ''b'', done = False\<rparr>],
       todo_file = None, stdout = []\<rparr> (- 2) =
     \<lparr>tasks = [\<lparr>desc = ''a'', done = False\<rparr>, \<lparr>desc = ''b'', done = False\<rparr>],
      todo_file = None, stdout = [NoTaskWithID (- 2)]\<rparr>"
  by (simp add: complete_task_def remove_task_def py_index_def print_def)

lemma update_last:
  "xs \<noteq> [] \<Longrightarrow> xs[length xs - 1 := f (xs ! (length xs - 1))] = butlast xs @ [f (last xs)]"
  by (induction xs rule: rev_induct) (simp_all add: nth_append)

lemma remove_last:
  "xs \<noteq> [] \<Longrightarrow> take (length xs - 1) xs @ drop (Suc (length xs - 1)) xs = butlast xs"
  by (simp add: butlast_conv_take)

text \<open>
  C9, amended. For every non-empty task list and every index \<open>idx\<close> with
  \<open>1 - length \<le> idx \<le> 0\<close>, \<^verbatim>\<open>complete_task\<close> and \<^verbatim>\<open>remove_task\<close> report no error: by
  Python's negative indexing they act on the task at position \<open>length + idx\<close> (counted
  from 1), save the list and report success. For \<open>idx = 0\<close> that task is the last one.
\<close>

theorem nonpositive_index_wraps:
  assumes "tasks s \<noteq> []" and "1 - int (length (tasks s)) \<le> idx" and "idx \<le> 0"
  shows "tasks (complete_task s idx) =
           (tasks s)[nat (int (length (tasks s)) + idx - 1) :=
              (tasks s ! nat (int (length (tasks s)) + idx - 1))\<lparr>done := True\<rparr>] \<and>
         todo_file (complete_task s idx) = Some (json_dumps (tasks (complete_task s idx))) \<and>
         stdout (complete_task s idx) = stdout s @ [Completed idx] \<and>
         tasks (remove_task s idx) =
           take (nat (int (length (tasks s)) + idx - 1)) (tasks s) @
           drop (Suc (nat (int (length (tasks s)) + idx - 1))) (tasks s) \<and>
         todo_file (remove_task s idx) = Some (json_dumps (tasks (remove_task s idx))) \<and>
         stdout (remove_task s idx) =
           stdout s @ [Removed (desc (tasks s ! nat (int (length (tasks s)) + idx - 1)))] \<and>
         tasks (complete_task s 0) = butlast (tasks s) @ [(last (tasks s))\<lparr>done := True\<rparr>] \<and>
         stdout (complete_task s 0) = stdout s @ [Completed 0] \<and>
         tasks (remove_task s 0) = butlast (tasks s) \<and>
         stdout (remove_task s 0) = stdout s @ [Removed (desc (last (tasks s)))]"
proof -
  let ?n = "length (tasks s)"
  have wrap: "py_index ?n (idx - 1) = Some (nat (int ?n + idx - 1))"
    by (rule py_index_wrap [OF assms(2,3)])
  have zero: "py_index ?n (0 - 1) = Some (?n - 1)"
    using assms(1) by (cases "tasks s") (simp_all add: py_index_def)
  have general:
    "tasks (complete_task s idx) =
       (tasks s)[nat (int ?n + idx - 1) := (tasks s ! nat (int ?n + idx - 1))\<lparr>done := True\<rparr>]"
    "todo_file (complete_task s idx) = Some (json_dumps (tasks (complete_task s idx)))"
    "stdout (complete_task s idx) = stdout s @ [Completed idx]"
    "tasks (remove_task s idx) =
       take (nat (int ?n + idx - 1)) (tasks s) @ drop (Suc (nat (int ?n + idx - 1))) (tasks s)"
    "todo_file (remove_task s idx) = Some (json_dumps (tasks (remove_task s idx)))"
    "stdout (remove_task s idx) =
       stdout s @ [Removed (desc (tasks s ! nat (int ?n + idx - 1)))]"
    by (simp_all add: complete_task_def remove_task_def wrap Let_def print_def save_tasks_def)
  have last_task: "tasks s ! (?n - 1) = last (tasks s)"
    using assms(1) by (simp add: last_conv_nth)
  have at_zero:
    "tasks (complete_task s 0) = butlast (tasks s) @ [(last (tasks s))\<lparr>done := True\<rparr>]"
    "stdout (complete_task s 0) = stdout s @ [Completed 0]"
    "tasks (remove_task s 0) = butlast (tasks s)"
    "stdout (remove_task s 0) = stdout s @ [Removed (desc (last (tasks s)))]"
    using assms(1) zero last_task update_last [of "tasks s" "\<lambda>t. t\<lparr>done := True\<rparr>"]
      remove_last [of "tasks s"]
    by (simp_all add: complete_task_def remove_task_def Let_def print_def save_tasks_def)
  from general at_zero show ?thesis
    by blast
qed


theorem nonpositive_index_wraps_witness:
  "tasks \<lparr>tasks = [\<lparr>desc = ''a'', done = False\<rparr>, \<lparr>desc = ''b'', done = False\<rparr>,
       \<lparr>desc = ''c'', done = False\<rparr>], todo_file = None, stdout = []\<rparr> \<noteq> [] \<and>
   1 - int (length (tasks \<lparr>tasks = [\<lparr>desc = ''a'', done = False\<rparr>, \<lparr>desc = ''b'', done = False\<rparr>,
       \<lparr>desc = ''c'', done = False\<rparr>], todo_file = None, stdout = []\<rparr>)) \<le> - 1 \<and>
   (- 1 :: int) \<le> 0 \<and>
   tasks (complete_task \<lparr>tasks = [\<lparr>desc = ''a'', done = False\<rparr>, \<lparr>desc = ''b'', done = False\<rparr>,
       \<lparr>desc = ''c'', done = False\<rparr>], todo_file = None, stdout = []\<rparr> (- 1)) =
     [\<lparr>desc = ''a'', done = False\<rparr>, \<lparr>desc = ''b'', done = True\<rparr>, \<lparr>desc = ''c'', done = False\<rparr>] \<and>
   tasks (remove_task \<lparr>tasks = [\<lparr>desc = ''a'', done = False\<rparr>, \<lparr>desc = ''b'', done = False\<rparr>,
       \<lparr>desc = ''c'', done = False\<rparr>], todo_file = None, stdout = []\<rparr> (- 1)) =
     [\<lparr>desc = ''a'', done = False\<rparr>, \<lparr>desc = ''c'', done = False\<rparr>] \<and>
   tasks (complete_task \<lparr>tasks = [\<lparr>desc = ''a'', done = False\<rparr>, \<lparr>desc = ''b'', done = False\<rparr>,
       \<lparr>desc = ''c'', done = False\<rparr>], todo_file = None, stdout = []\<rparr> 0) =
     [\<lparr>desc = ''a'', done = False\<rparr>, \<lparr>desc = ''b'', done = False\<rparr>, \<lparr>desc = ''c'', done = True\<rparr>] \<and>
   tasks (remove_task \<lparr>tasks = [\<lparr>desc = ''a'', done = False\<rparr>, \<lparr>desc = ''b'', done = False\<rparr>,
       \<lparr>desc = ''c'', done = False\<rparr>], todo_file = None, stdout = []\<rparr> 0) =
     [\<lparr>desc = ''a'', done = False\<rparr>, \<lparr>desc = ''b'', done = False\<rparr>]"
  using nonpositive_index_wraps [of "\<lparr>tasks = [\<lparr>desc = ''a'', done = False\<rparr>, \<lparr>desc = ''b'', done = False\<rparr>,
       \<lparr>desc = ''c'', done = False\<rparr>], todo_file = None, stdout = []\<rparr>" "- 1"]
  by (simp add: complete_task_def remove_task_def py_index_def print_def save_tasks_def Let_def)

section \<open>Properties of the text-box view\<close>

text \<open>
  A line is blank exactly when all its characters are whitespace, and stripping a text
  neither adds nor removes a non-blank line: the whitespace at both ends only makes
  blank lines or the blank ends of the first and the last non-blank line.
\<close>

lemma strip_empty_iff: "strip l = [] \<longleftrightarrow> (\<forall>c\<in>set l. isspace c)"
proof -
  have "dropWhile isspace (rev (dropWhile isspace l)) = [] \<longleftrightarrow> dropWhile isspace l = []"
  proof
    assume a: "dropWhile isspace (rev (dropWhile isspace l)) = []"
    show "dropWhile isspace l = []"
    proof (rule ccontr)
      assume ne: "dropWhile isspace l \<noteq> []"
      then have "\<not> isspace (hd (dropWhile isspace l))"
        by (rule hd_dropWhile)
      moreover have "hd (dropWhile isspace l) \<in> set (rev (dropWhile isspace l))"
        using ne by simp
      ultimately show False
        using a by (auto simp: dropWhile_eq_Nil_conv)
    qed
  next
    assume "dropWhile isspace l = []"
    then show "dropWhile isspace (rev (dropWhile isspace l)) = []"
      by (simp only: rev.simps dropWhile.simps)
  qed
  then show ?thesis
    by (simp add: strip_def dropWhile_eq_Nil_conv)
qed

lemma nonblank_lines_blank_suffix:
  "\<forall>c\<in>set w. isspace c \<Longrightarrow> nonblank_lines cur w = (if strip cur \<noteq> [] then 1 else 0)"
  by (induction cur w rule: splitlines_from.induct)
     (auto simp: nonblank_lines_def strip_empty_iff)

lemma nonblank_lines_cur:
  "(strip cur1 = []) = (strip cur2 = []) \<Longrightarrow> nonblank_lines cur1 xs = nonblank_lines cur2 xs"
proof (induction cur1 xs arbitrary: cur2 rule: splitlines_from.induct)
  case (1 cur)
  then show ?case by (auto simp: nonblank_lines_def strip_empty_iff)
next
  case (2 cur c)
  then show ?case by (auto simp: nonblank_lines_def strip_empty_iff)
next
  case (3 cur c d cs)
  have "(strip (cur @ [c]) = []) = (strip (cur2 @ [c]) = [])"
    using "3.prems" by (simp add: strip_empty_iff)
  then have "nonblank_lines (cur @ [c]) (d # cs) = nonblank_lines (cur2 @ [c]) (d # cs)"
    if "\<not> (c = CHR 0x0D \<and> d = CHR 0x0A)" "\<not> linebreak c"
    using that "3.IH"(3) by blast
  then show ?case
    using "3.prems" by (auto simp: nonblank_lines_def)
qed


lemma nonblank_lines_blank_prefix:
  assumes "\<forall>c\<in>set w. isspace c" and "strip cur = []" and "r = [] \<or> \<not> isspace (hd r)"
  shows "nonblank_lines cur (w @ r) = nonblank_lines [] r"
  using assms
proof (induction cur w rule: splitlines_from.induct)
  case (1 cur)
  then show ?case
    using nonblank_lines_cur [of cur "[]" r] by (simp add: strip_empty_iff)
next
  case (2 cur c)
  show ?case
  proof (cases r)
    case Nil
    then show ?thesis
      using 2 by (auto simp: nonblank_lines_def strip_empty_iff)
  next
    case (Cons d r')
    then have d: "\<not> isspace d"
      using "2.prems" by simp
    then have crlf: "\<not> (c = CHR 0x0D \<and> d = CHR 0x0A)"
      by (auto simp: isspace_def)
    have "strip (cur @ [c]) = []"
      using "2.prems" by (simp add: strip_empty_iff)
    then have "nonblank_lines (cur @ [c]) (d # r') = nonblank_lines [] (d # r')"
      using nonblank_lines_cur [of "cur @ [c]" "[]" "d # r'"] by (simp add: strip_empty_iff)
    then show ?thesis
      using "2.prems" crlf Cons by (auto simp: nonblank_lines_def strip_empty_iff)
  qed
next
  case (3 cur c d cs)
  have blank: "strip [] = []" "strip (cur @ [c]) = []"
    using "3.prems" by (simp_all add: strip_empty_iff)
  have rest: "\<forall>c\<in>set cs. isspace c" "\<forall>c\<in>set (d # cs). isspace c"
    using "3.prems" by simp_all
  show ?case
  proof (cases "c = CHR 0x0D \<and> d = CHR 0x0A")
    case True
    then have "nonblank_lines [] (cs @ r) = nonblank_lines [] r"
      using "3.IH"(1) rest(1) blank(1) "3.prems"(3) by blast
    then show ?thesis
      using True "3.prems"(2) by (simp add: nonblank_lines_def)
  next
    case False
    show ?thesis
    proof (cases "linebreak c")
      case True
      then have "nonblank_lines [] ((d # cs) @ r) = nonblank_lines [] r"
        using "3.IH"(2) False rest(2) blank(1) "3.prems"(3) by blast
      then show ?thesis
        using True False "3.prems"(2) by (auto simp: nonblank_lines_def)
    next
      case nb: False
      then have "nonblank_lines (cur @ [c]) ((d # cs) @ r) = nonblank_lines [] r"
        using "3.IH"(3) False rest(2) blank(2) "3.prems"(3) by blast
      then show ?thesis
        using nb False by (auto simp: nonblank_lines_def)
    qed
  qed
qed

lemma nonblank_lines_blank_append:
  assumes "\<forall>c\<in>set w. isspace c"
  shows "nonblank_lines cur (xs @ w) = nonblank_lines cur xs"
proof (induction cur xs rule: splitlines_from.induct)
  case (1 cur)
  show ?case
    using nonblank_lines_blank_suffix [OF assms, of cur]
    by (simp add: nonblank_lines_def strip_def)
next
  case (2 cur c)
  show ?case
  proof (cases w)
    case Nil
    then show ?thesis by simp
  next
    case (Cons d w')
    then have w': "\<forall>c\<in>set w'. isspace c" "\<forall>c\<in>set (d # w'). isspace c"
      using assms by simp_all
    have a: "nonblank_lines [] w' = 0" "nonblank_lines [] (d # w') = 0"
      "nonblank_lines (cur @ [c]) (d # w') = (if strip (cur @ [c]) \<noteq> [] then 1 else 0)"
      using nonblank_lines_blank_suffix [OF w'(1), of "[]"]
        nonblank_lines_blank_suffix [OF w'(2), of "[]"]
        nonblank_lines_blank_suffix [OF w'(2), of "cur @ [c]"]
      by (simp_all add: strip_empty_iff)
    have cr: "linebreak (CHR 0x0D)"
      by (simp add: linebreak_def)
    show ?thesis
      using a cr Cons by (auto simp: nonblank_lines_def)
  qed
next
  case (3 cur c d cs)
  then show ?case
    by (auto simp: nonblank_lines_def)
qed

lemma strip_decompose:
  "\<exists>w1 w2. content = w1 @ strip content @ w2 \<and> (\<forall>c\<in>set w1. isspace c) \<and>
     (\<forall>c\<in>set w2. isspace c) \<and>
     (strip content @ w2 = [] \<or> \<not> isspace (hd (strip content @ w2)))"
proof -
  let ?m = "dropWhile isspace content"
  let ?w1 = "takeWhile isspace content"
  let ?w2 = "rev (takeWhile isspace (rev ?m))"
  have m: "?m = strip content @ ?w2"
  proof -
    have "?m = rev (takeWhile isspace (rev ?m) @ dropWhile isspace (rev ?m))"
      by (simp only: takeWhile_dropWhile_id rev_rev_ident)
    also have "\<dots> = rev (dropWhile isspace (rev ?m)) @ rev (takeWhile isspace (rev ?m))"
      by (simp only: rev_append)
    finally show ?thesis
      by (simp only: strip_def)
  qed
  have c: "content = ?w1 @ strip content @ ?w2"
    using m takeWhile_dropWhile_id [of isspace content] by simp
  have w1: "\<forall>c\<in>set ?w1. isspace c"
    by (auto dest: set_takeWhileD)
  have w2: "\<forall>c\<in>set ?w2. isspace c"
    by (auto dest: set_takeWhileD)
  have h: "strip content @ ?w2 = [] \<or> \<not> isspace (hd (strip content @ ?w2))"
    using hd_dropWhile [of isspace content] m by metis
  from c w1 w2 h show ?thesis
    by blast
qed

lemma nonblank_lines_strip:
  "nonblank_lines [] (strip content) = nonblank_lines [] content"
proof -
  obtain w1 w2 where c: "content = w1 @ strip content @ w2"
    and w1: "\<forall>c\<in>set w1. isspace c" and w2: "\<forall>c\<in>set w2. isspace c"
    and h: "strip content @ w2 = [] \<or> \<not> isspace (hd (strip content @ w2))"
    using strip_decompose by blast
  have e: "strip [] = []"
    by (simp add: strip_def)
  have "nonblank_lines [] (w1 @ strip content @ w2) = nonblank_lines [] (strip content @ w2)"
    using nonblank_lines_blank_prefix [OF w1 e h] .
  also have "\<dots> = nonblank_lines [] (strip content)"
    by (rule nonblank_lines_blank_append [OF w2])
  finally show ?thesis
    using c by simp
qed

text \<open>
  C7. For every content of the text box and every task list held before,
  \<^verbatim>\<open>save_text\<close> replaces the whole list by one task for each non-blank line of the
  text, each with \<open>done = False\<close> and the line of the stripped text as its description,
  and saves that list: the store then loads as this list. The new list does not depend
  on the old one, so a flag \<open>done = True\<close> set before does not survive.
\<close>

theorem save_text_resync:
  "tasks (save_text content s) =
     map (\<lambda>line. \<lparr>desc = line, done = False\<rparr>)
       (filter (\<lambda>line. strip line \<noteq> []) (splitlines (strip content))) \<and>
   length (tasks (save_text content s)) =
     length (filter (\<lambda>line. strip line \<noteq> []) (splitlines content)) \<and>
   (\<forall>t\<in>set (tasks (save_text content s)). \<not> done t \<and> strip (desc t) \<noteq> []) \<and>
   todo_file (save_text content s) = Some (json_dumps (tasks (save_text content s))) \<and>
   load_tasks (save_text content s) = Inr (tasks (save_text content s)) \<and>
   stdout (save_text content s) = stdout s"
proof -
  let ?ts = "map (\<lambda>line. \<lparr>desc = line, done = False\<rparr>)
       (filter (\<lambda>line. strip line \<noteq> []) (splitlines (strip content)))"
  have st: "save_text content s = save_tasks ?ts (s\<lparr>tasks := ?ts\<rparr>)"
    by (simp add: save_text_def Let_def)
  have t: "tasks (save_text content s) = ?ts"
    by (simp add: st save_tasks_def)
  have n: "length (tasks (save_text content s)) =
      length (filter (\<lambda>line. strip line \<noteq> []) (splitlines content))"
    using nonblank_lines_strip [of content]
    by (simp add: t nonblank_lines_def splitlines_def)
  have fresh: "\<forall>t\<in>set (tasks (save_text content s)). \<not> done t \<and> strip (desc t) \<noteq> []"
    by (auto simp: t)
  have saved: "todo_file (save_text content s) = Some (json_dumps (tasks (save_text content s)))"
    by (simp add: st save_tasks_def)
  have loaded: "load_tasks (save_text content s) = Inr (tasks (save_text content s))"
    by (simp add: load_tasks_def saved json_loads_dumps)
  have out: "stdout (save_text content s) = stdout s"
    by (simp add: st save_tasks_def)
  from t n fresh saved loaded out show ?thesis
    by blast
qed

theorem save_text_resync_witness:
  "tasks (save_text [CHR ''a'', CHR 0x0A, CHR '' '', CHR 0x0A, CHR ''b'', CHR 0x0A]
      \<lparr>tasks = [\<lparr>desc = ''a'', done = True\<rparr>], todo_file = None, stdout = []\<rparr>) =
     [\<lparr>desc = ''a'', done = False\<rparr>, \<lparr>desc = ''b'', done = False\<rparr>] \<and>
   todo_file (save_text [CHR ''a'', CHR 0x0A, CHR '' '', CHR 0x0A, CHR ''b'', CHR 0x0A]
      \<lparr>tasks = [\<lparr>desc = ''a'', done = True\<rparr>], todo_file = None, stdout = []\<rparr>) =
     Some (json_dumps [\<lparr>desc = ''a'', done = False\<rparr>, \<lparr>desc = ''b'', done = False\<rparr>])"
  using save_text_resync [of "[CHR ''a'', CHR 0x0A, CHR '' '', CHR 0x0A, CHR ''b'', CHR 0x0A]"
      "\<lparr>tasks = [\<lparr>desc = ''a'', done = True\<rparr>], todo_file = None, stdout = []\<rparr>"]
  by (simp add: strip_def isspace_def splitlines_def linebreak_def)

end
